theory Spec2Isabelle
  imports Complex_Main "HOL-Library.Char_ord" "HOL-Library.List_Lexorder"
begin

section \<open>Arrays and errors\<close>

text \<open>
  The embedding covers \<^verbatim>\<open>src/src/Lab_2_4_LR2.py\<close>: the class \<^verbatim>\<open>LinearRegressor\<close>
  and the functions \<^verbatim>\<open>evaluate_regression\<close> and \<^verbatim>\<open>one_hot_encode\<close>.

  Conventions of the embedding:
  \<^item> in \<^verbatim>\<open>LinearRegressor\<close> a float is a \<^typ>\<open>real\<close>: rounding is not modelled
    there. In \<^verbatim>\<open>evaluate_regression\<close> a float is an \<open>npfloat\<close>, a double or one of
    nan and the infinities, and the arithmetic on doubles is a parameter of the model;
  \<^item> a 1-D array is a list, a 2-D array is a \<open>matrix\<close>: its column count and the list of
    its rows. The column count is stored because an array with no rows still has one;
    \<open>wf_matrix\<close> says that every row has that many entries, which numpy guarantees;
  \<^item> an exception is a value of type \<open>error\<close>; a method of the class returns the raised
    error (or \<open>None\<close>) together with the object's state, since an attribute assigned before
    a raise stays assigned. The messages of the two ValueErrors that the source raises are
    kept; for a ValueError raised inside numpy the message is a short stand-in.
\<close>

datatype error = ValueError string | IndexError | ZeroDivisionError | TypeError

datatype 'a matrix = Matrix (ncols: nat) (rows: "'a list list")

datatype 'a ndarray = Arr1 "'a list" | Arr2 "'a matrix"

definition nrows :: "'a matrix \<Rightarrow> nat" where
  "nrows M = length (rows M)"

definition wf_matrix :: "'a matrix \<Rightarrow> bool" where
  "wf_matrix M = list_all (\<lambda>r. length r = ncols M) (rows M)"

text \<open>\<^verbatim>\<open>X.reshape(-1, 1)\<close> on a 1-D array.\<close>

definition reshape_col :: "'a list \<Rightarrow> 'a matrix" where
  "reshape_col xs = Matrix 1 (map (\<lambda>x. [x]) xs)"

text \<open>\<^verbatim>\<open>np.insert(X, 0, 1, axis=1)\<close>.\<close>

definition insert_ones :: "real matrix \<Rightarrow> real matrix" where
  "insert_ones X = Matrix (Suc (ncols X)) (map (\<lambda>r. 1 # r) (rows X))"

text \<open>\<^verbatim>\<open>np.c_[np.ones(X.shape[0]), X]\<close>.\<close>

definition c_ones :: "real matrix \<Rightarrow> real matrix" where
  "c_ones X = Matrix (Suc (ncols X)) (map (\<lambda>r. 1 # r) (rows X))"

text \<open>\<^verbatim>\<open>X.T\<close>.\<close>

definition T :: "'a matrix \<Rightarrow> 'a matrix" where
  "T X = Matrix (nrows X) (map (\<lambda>j. map (\<lambda>r. r ! j) (rows X)) [0..<ncols X])"

text \<open>\<^verbatim>\<open>X[:, :j]\<close> and \<^verbatim>\<open>X[:, j:]\<close>.\<close>

definition cols_before :: "'a matrix \<Rightarrow> nat \<Rightarrow> 'a matrix" where
  "cols_before X j = Matrix (min j (ncols X)) (map (take j) (rows X))"

definition cols_from :: "'a matrix \<Rightarrow> nat \<Rightarrow> 'a matrix" where
  "cols_from X j = Matrix (ncols X - j) (map (drop j) (rows X))"

definition dot :: "real list \<Rightarrow> real list \<Rightarrow> real" where
  "dot xs ys = sum_list (map2 (*) xs ys)"

definition shapes_not_aligned :: string where
  "shapes_not_aligned = ''shapes not aligned''"

definition not_broadcastable :: string where
  "not_broadcastable = ''operands could not be broadcast together''"

text \<open>\<^verbatim>\<open>A @ B\<close> for two 2-D arrays: numpy raises ValueError unless the inner sizes agree.\<close>

definition matmul :: "real matrix \<Rightarrow> real matrix \<Rightarrow> error + real matrix" where
  "matmul A B =
     (if ncols A \<noteq> nrows B then Inl (ValueError shapes_not_aligned)
      else Inr (Matrix (ncols B) (map (\<lambda>r. map (\<lambda>c. dot r c) (rows (T B))) (rows A))))"

text \<open>\<^verbatim>\<open>A @ v\<close> and \<^verbatim>\<open>np.dot(A, v)\<close> for a 2-D array and a 1-D array.\<close>

definition matvec :: "real matrix \<Rightarrow> real list \<Rightarrow> error + real list" where
  "matvec A v =
     (if ncols A \<noteq> length v then Inl (ValueError shapes_not_aligned)
      else Inr (map (\<lambda>r. dot r v) (rows A)))"

text \<open>\<^verbatim>\<open>xs - ys\<close> for two 1-D arrays, with numpy's broadcasting of a length-1 operand.\<close>

definition np_sub :: "real list \<Rightarrow> real list \<Rightarrow> error + real list" where
  "np_sub xs ys =
     (if length xs = length ys then Inr (map2 (-) xs ys)
      else if length ys = 1 then Inr (map (\<lambda>x. x - hd ys) xs)
      else if length xs = 1 then Inr (map (\<lambda>y. hd xs - y) ys)
      else Inl (ValueError not_broadcastable))"

text \<open>
  \<^verbatim>\<open>ws -= gs\<close> for a 1-D array \<open>ws\<close> and a Python list \<open>gs\<close>: in place, so only \<open>gs\<close>
  can be broadcast.
\<close>

definition np_isub :: "real list \<Rightarrow> real list \<Rightarrow> error + real list" where
  "np_isub ws gs =
     (if length gs = length ws then Inr (map2 (-) ws gs)
      else if length gs = 1 then Inr (map (\<lambda>w. w - hd gs) ws)
      else Inl (ValueError not_broadcastable))"

section \<open>LinearRegressor\<close>

record model =
  coefficients :: "real list option"
  intercept :: "real option"

text \<open>\<^verbatim>\<open>__init__\<close>: both attributes are None.\<close>

definition init :: model where
  "init = \<lparr>coefficients = None, intercept = None\<rparr>"

definition not_fitted :: string where
  "not_fitted = ''Model is not yet fitted''"

definition predict :: "model \<Rightarrow> real ndarray \<Rightarrow> error + real list" where
  "predict m X =
     (if coefficients m = None \<or> intercept m = None then Inl (ValueError not_fitted)
      else
        (case X of
           Arr1 xs \<Rightarrow>
             (if 1 < length (the (coefficients m))
              then Inr (map (\<lambda>x. the (coefficients m) ! 1 * x + the (intercept m)) xs)
              else Inl IndexError)
         | Arr2 A \<Rightarrow>
             (case matvec A (the (coefficients m)) of
                Inl e \<Rightarrow> Inl e
              | Inr p \<Rightarrow> Inr (map (\<lambda>v. v + the (intercept m)) p))))"

text \<open>
  \<^verbatim>\<open>np.linalg.pinv(XT @ X) @ XT @ y\<close>. numpy is not part of the repository, so the
  pseudo-inverse is a parameter \<open>pinv\<close> of the model; what a theorem needs of it is
  a hypothesis of that theorem. Python's \<^verbatim>\<open>@\<close> associates to the left.
\<close>

definition normal_equation ::
  "(real matrix \<Rightarrow> real matrix) \<Rightarrow> real matrix \<Rightarrow> real list \<Rightarrow> error + real list" where
  "normal_equation pinv X y =
     (case matmul (T X) X of
        Inl e \<Rightarrow> Inl e
      | Inr G \<Rightarrow>
          (case matmul (pinv G) (T X) of
             Inl e \<Rightarrow> Inl e
           | Inr A \<Rightarrow> matvec A y))"

text \<open>
  \<^verbatim>\<open>b = beta[0]; w = beta[1:]; self.intercept = b; self.coefficients = w\<close>.
\<close>

definition store_beta :: "model \<Rightarrow> error + real list \<Rightarrow> error option \<times> model" where
  "store_beta m r =
     (case r of
        Inl e \<Rightarrow> (Some e, m)
      | Inr beta \<Rightarrow>
          (case beta of
             [] \<Rightarrow> (Some IndexError, m)
           | b # w \<Rightarrow> (None, m\<lparr>intercept := Some b, coefficients := Some w\<rparr>)))"

definition fit_multiple ::
  "(real matrix \<Rightarrow> real matrix) \<Rightarrow> model \<Rightarrow> real ndarray \<Rightarrow> real list \<Rightarrow> error option \<times> model" where
  "fit_multiple pinv m X y =
     (let X1 = (case X of Arr1 xs \<Rightarrow> reshape_col xs | Arr2 A \<Rightarrow> A);
          X2 = c_ones X1
      in store_beta m (normal_equation pinv X2 y))"

text \<open>
  The body of \<^verbatim>\<open>for j in range(1, X.ndim)\<close>, which appends
  \<^verbatim>\<open>(2*learning_rate/m) * np.sum(np.dot(X.T**j, error))\<close> to \<^verbatim>\<open>gradient_w\<close>.
  The quotient by the Python int \<open>m\<close> is evaluated first and raises for \<open>m = 0\<close>.
\<close>

fun gradient_w_loop :: "real matrix \<Rightarrow> real list \<Rightarrow> real \<Rightarrow> nat \<Rightarrow> nat list \<Rightarrow> error + real list" where
  "gradient_w_loop X err lr m [] = Inr []"
| "gradient_w_loop X err lr m (j # js) =
     (if m = 0 then Inl ZeroDivisionError
      else
        (case matvec (Matrix (ncols (T X)) (map (map (\<lambda>x. x ^ j)) (rows (T X)))) err of
           Inl e \<Rightarrow> Inl e
         | Inr v \<Rightarrow>
             (case gradient_w_loop X err lr m js of
                Inl e \<Rightarrow> Inl e
              | Inr ws \<Rightarrow> Inr ((2 * lr / real m) * sum_list v # ws))))"

text \<open>
  One pass of the loop body of \<^verbatim>\<open>fit_gradient_descent\<close>; \<open>X\<close> is the matrix with the
  bias column, a 2-D array, so \<^verbatim>\<open>range(1, X.ndim)\<close> is \<open>[1..<2]\<close>. The diagnostic
  \<^verbatim>\<open>print\<close> of every 1000th epoch changes no state and is left out.
\<close>

definition gd_epoch :: "real matrix \<Rightarrow> real list \<Rightarrow> real \<Rightarrow> model \<Rightarrow> error option \<times> model" where
  "gd_epoch X y lr m =
     (case predict m (Arr2 (cols_from X 1)) of
        Inl e \<Rightarrow> (Some e, m)
      | Inr predictions \<Rightarrow>
          (case np_sub predictions y of
             Inl e \<Rightarrow> (Some e, m)
           | Inr err \<Rightarrow>
               (case gradient_w_loop X err lr (length y) [1..<2] of
                  Inl e \<Rightarrow> (Some e, m)
                | Inr gradient_w \<Rightarrow>
                    (if length y = 0 then (Some ZeroDivisionError, m)
                     else
                       (let gradient_b = (2 / real (length y)) * sum_list err;
                            m1 = m\<lparr>intercept := Some (the (intercept m) - lr * gradient_b)\<rparr>
                        in (case np_isub (the (coefficients m1)) gradient_w of
                              Inl e \<Rightarrow> (Some e, m1)
                            | Inr w \<Rightarrow> (None, m1\<lparr>coefficients := Some w\<rparr>)))))))"

fun gd_loop :: "nat \<Rightarrow> real matrix \<Rightarrow> real list \<Rightarrow> real \<Rightarrow> model \<Rightarrow> error option \<times> model" where
  "gd_loop 0 X y lr m = (None, m)"
| "gd_loop (Suc k) X y lr m =
     (case gd_epoch X y lr m of
        (Some e, m1) \<Rightarrow> (Some e, m1)
      | (None, m1) \<Rightarrow> gd_loop k X y lr m1)"

text \<open>
  \<^verbatim>\<open>np.random.rand\<close> is the parameter \<open>rnd\<close>: \<open>rnd i\<close> is the \<open>i\<close>-th number drawn.
  \<^verbatim>\<open>np.random.rand(X.shape[1] - 1)\<close> raises ValueError for a negative size.
\<close>

definition fit_gradient_descent ::
  "(nat \<Rightarrow> real) \<Rightarrow> model \<Rightarrow> real matrix \<Rightarrow> real list \<Rightarrow> real \<Rightarrow> int \<Rightarrow> error option \<times> model" where
  "fit_gradient_descent rnd m X y lr iterations =
     (if ncols X = 0 then (Some (ValueError ''negative dimensions are not allowed''), m)
      else
        (let p = ncols X - 1;
             m1 = m\<lparr>coefficients := Some (map (\<lambda>i. rnd i * (1 / 100)) [0..<p])\<rparr>;
             m2 = m1\<lparr>intercept := Some (rnd p * (1 / 100))\<rparr>
         in gd_loop (nat iterations) X y lr m2))"

definition method_not_available :: "string \<Rightarrow> string" where
  "method_not_available method =
     ''Method '' @ method @ '' not available for training linear regression.''"

definition fit ::
  "(real matrix \<Rightarrow> real matrix) \<Rightarrow> (nat \<Rightarrow> real) \<Rightarrow> model \<Rightarrow> real ndarray \<Rightarrow> real list \<Rightarrow>
     string \<Rightarrow> real \<Rightarrow> int \<Rightarrow> error option \<times> model" where
  "fit pinv rnd m X y method lr iterations =
     (if method \<notin> set [''least_squares'', ''gradient_descent'']
      then (Some (ValueError (method_not_available method)), m)
      else
        (let X1 = (case X of Arr1 xs \<Rightarrow> reshape_col xs | Arr2 A \<Rightarrow> A);
             X_with_bias = insert_ones X1
         in if method = ''least_squares'' then fit_multiple pinv m (Arr2 X_with_bias) y
            else if method = ''gradient_descent''
            then fit_gradient_descent rnd m X_with_bias y lr iterations
            else (None, m)))"

text \<open>
  What the theorems below ask of \<open>pinv\<close>: at the matrix \<^verbatim>\<open>XT @ X\<close> that the code
  passes to it, its result is the Moore-Penrose pseudo-inverse, that is, an array of the
  transposed shape that satisfies the four Penrose equations with exact arithmetic.
\<close>

definition mm3 :: "real matrix \<Rightarrow> real matrix \<Rightarrow> real matrix \<Rightarrow> error + real matrix" where
  "mm3 A B C = (case matmul A B of Inl e \<Rightarrow> Inl e | Inr AB \<Rightarrow> matmul AB C)"

definition symmetric_prod :: "real matrix \<Rightarrow> real matrix \<Rightarrow> bool" where
  "symmetric_prod A B = (case matmul A B of Inl e \<Rightarrow> False | Inr AB \<Rightarrow> T AB = AB)"

definition moore_penrose :: "real matrix \<Rightarrow> real matrix \<Rightarrow> bool" where
  "moore_penrose A P =
     (wf_matrix P \<and> nrows P = ncols A \<and> ncols P = nrows A \<and>
      mm3 A P A = Inr A \<and> mm3 P A P = Inr P \<and> symmetric_prod A P \<and> symmetric_prod P A)"

definition pinv_ok :: "(real matrix \<Rightarrow> real matrix) \<Rightarrow> real matrix \<Rightarrow> bool" where
  "pinv_ok pinv X =
     (case matmul (T X) X of Inl e \<Rightarrow> False | Inr G \<Rightarrow> moore_penrose G (pinv G))"

text \<open>
  The data \<open>y = 2x + 3\<close> at \<open>x = 0, 1, 2\<close>; \<open>G0\<close> is \<^verbatim>\<open>XT @ X\<close> for the matrix that
  \<^verbatim>\<open>fit_multiple\<close> builds from it and \<open>Q0\<close> is the pseudo-inverse of \<open>G0\<close>.
\<close>

definition X0 :: "real matrix" where
  "X0 = Matrix 1 [[0], [1], [2]]"

definition y0 :: "real list" where
  "y0 = [3, 5, 7]"

definition G0 :: "real matrix" where
  "G0 = Matrix 3 [[3, 3, 3], [3, 3, 3], [3, 3, 5]]"

definition Q0 :: "real matrix" where
  "Q0 = Matrix 3 [[5 / 24, 5 / 24, - 1 / 4], [5 / 24, 5 / 24, - 1 / 4], [- 1 / 4, - 1 / 4, 1 / 2]]"

section \<open>evaluate\_regression\<close>

text \<open>
  A numpy float: \<open>Finite x\<close> is the double of value \<open>x\<close> (the sign of a zero is not
  recorded). The operations of numpy on floats round, overflow and underflow; they are the
  fields of a parameter \<open>fp\<close> of the model, and a theorem lists what it assumes of them.
\<close>

datatype npfloat = Finite real | PosInf | NegInf | NaN

record fpu =
  fsub :: "npfloat \<Rightarrow> npfloat \<Rightarrow> npfloat"
  fmul :: "npfloat \<Rightarrow> npfloat \<Rightarrow> npfloat"
  fdiv :: "npfloat \<Rightarrow> npfloat \<Rightarrow> npfloat"
  fsq :: "npfloat \<Rightarrow> npfloat"
  fabs :: "npfloat \<Rightarrow> npfloat"
  fsqrt :: "npfloat \<Rightarrow> npfloat"
  fsum :: "npfloat list \<Rightarrow> npfloat"
  fmean :: "npfloat list \<Rightarrow> npfloat"

text \<open>\<^verbatim>\<open>xs - ys\<close> for two 1-D float arrays, with broadcasting of a length-1 operand.\<close>

definition np_fsub :: "fpu \<Rightarrow> npfloat list \<Rightarrow> npfloat list \<Rightarrow> error + npfloat list" where
  "np_fsub fp xs ys =
     (if length xs = length ys then Inr (map2 (fsub fp) xs ys)
      else if length ys = 1 then Inr (map (\<lambda>x. fsub fp x (hd ys)) xs)
      else if length xs = 1 then Inr (map (\<lambda>y. fsub fp (hd xs) y) ys)
      else Inl (ValueError not_broadcastable))"

text \<open>
  \<^verbatim>\<open>data_mean = np.mean(y_true); TSS = np.sum((y_true-data_mean)**2)\<close>.
\<close>

definition TSS :: "fpu \<Rightarrow> npfloat list \<Rightarrow> npfloat" where
  "TSS fp y_true =
     (let data_mean = fmean fp y_true
      in fsum fp (map (\<lambda>v. fsq fp (fsub fp v data_mean)) y_true))"

record metrics =
  R2 :: npfloat
  RMSE :: npfloat
  MAE :: npfloat

text \<open>
  \<^verbatim>\<open>RSS/TSS\<close> divides two numpy floats: a zero divisor gives nan or an infinity (and a
  warning), not an exception. \<^verbatim>\<open>1/N\<close> divides two Python ints: it raises for
  \<open>N = 0\<close>, and otherwise it is the correctly rounded quotient, as the division of the
  doubles 1 and \<open>N\<close> is.
\<close>

definition evaluate_regression :: "fpu \<Rightarrow> npfloat list \<Rightarrow> npfloat list \<Rightarrow> error + metrics" where
  "evaluate_regression fp y_true y_pred =
     (let N = length y_true
      in (case np_fsub fp y_true y_pred of
            Inl e \<Rightarrow> Inl e
          | Inr d \<Rightarrow>
              (let RSS = fsum fp (map (fsq fp) d);
                   r_squared = fsub fp (Finite 1) (fdiv fp RSS (TSS fp y_true))
               in if N = 0 then Inl ZeroDivisionError
                  else
                    (let inv_N = fdiv fp (Finite 1) (Finite (real N));
                         rmse = fsqrt fp (fmul fp inv_N (fsum fp (map (fsq fp) d)));
                         mae = fmul fp inv_N (fsum fp (map (fabs fp) d))
                     in Inr \<lparr>R2 = r_squared, RMSE = rmse, MAE = mae\<rparr>))))"

text \<open>
  What the theorem on perfect predictions assumes of the arithmetic, each line a fact of
  IEEE 754 arithmetic on doubles: \<open>x - x\<close> is 0 for a finite \<open>x\<close>; the square, the
  absolute value and the square root of 0 are 0; a sum of zeros is 0; 0 divided by
  anything but 0 and nan is 0; \<open>1 - 0\<close> is 1; \<open>1/N\<close> is finite for \<open>N > 0\<close>; a finite number
  times 0 is 0.
\<close>

definition ieee_zero_laws :: "fpu \<Rightarrow> bool" where
  "ieee_zero_laws fp =
     ((\<forall>x. fsub fp (Finite x) (Finite x) = Finite 0) \<and>
      fsq fp (Finite 0) = Finite 0 \<and>
      fabs fp (Finite 0) = Finite 0 \<and>
      fsqrt fp (Finite 0) = Finite 0 \<and>
      (\<forall>n. fsum fp (replicate n (Finite 0)) = Finite 0) \<and>
      (\<forall>t. t \<noteq> Finite 0 \<and> t \<noteq> NaN \<longrightarrow> fdiv fp (Finite 0) t = Finite 0) \<and>
      fsub fp (Finite 1) (Finite 0) = Finite 1 \<and>
      (\<forall>n. 0 < n \<longrightarrow> (\<exists>c. fdiv fp (Finite 1) (Finite (real n)) = Finite c)) \<and>
      (\<forall>c. fmul fp (Finite c) (Finite 0) = Finite 0))"









section \<open>one\_hot\_encode\<close>

text \<open>
  A cell of the data array is a number or a string, and the array has a dtype: a numeric
  one, a string one (then every cell is a string) or \<^verbatim>\<open>object\<close>. Column indices are
  natural numbers.
\<close>

datatype cell = Num real | Str string

datatype dtype = Numeric | Unicode | Object

datatype carray = Array (dtype: dtype) (cells: "cell matrix")

fun nums_of :: "cell list \<Rightarrow> real list option" where
  "nums_of [] = Some []"
| "nums_of (Num x # cs) = map_option ((#) x) (nums_of cs)"
| "nums_of (Str s # cs) = None"

fun strs_of :: "cell list \<Rightarrow> string list option" where
  "strs_of [] = Some []"
| "strs_of (Str s # cs) = map_option ((#) s) (strs_of cs)"
| "strs_of (Num x # cs) = None"

text \<open>
  \<^verbatim>\<open>np.unique\<close>: the distinct values in increasing order. Sorting an object array that
  mixes strings and numbers raises TypeError.
\<close>

definition np_unique :: "cell list \<Rightarrow> error + cell list" where
  "np_unique col =
     (case nums_of col of
        Some xs \<Rightarrow> Inr (map Num (sort (remdups xs)))
      | None \<Rightarrow>
          (case strs_of col of
             Some ss \<Rightarrow> Inr (map Str (sort (remdups ss)))
           | None \<Rightarrow> Inl TypeError))"

fun cell_less :: "cell \<Rightarrow> cell \<Rightarrow> bool" where
  "cell_less (Num a) (Num b) = (a < b)"
| "cell_less (Str s) (Str t) = (s < t)"
| "cell_less u v = False"

text \<open>\<^verbatim>\<open>np.searchsorted(us, v)\<close> on a sorted array: the number of entries below \<open>v\<close>.\<close>

definition searchsorted :: "cell list \<Rightarrow> cell \<Rightarrow> nat" where
  "searchsorted us v = length (takeWhile (\<lambda>u. cell_less u v) us)"

text \<open>
  \<^verbatim>\<open>np.eye(k)[i]\<close>, a row of the float64 entries 1.0 and 0.0, written \<open>True\<close> and
  \<open>False\<close>; the index is in range for every use below (\<open>searchsorted_less\<close>).
\<close>

definition eye_row :: "nat \<Rightarrow> nat \<Rightarrow> bool list" where
  "eye_row k i = map (\<lambda>j. j = i) [0..<k]"

text \<open>
  What \<^verbatim>\<open>np.concatenate\<close> makes of a float64 entry 1.0 or 0.0 in a result of the given
  dtype: the strings '1.0' and '0.0' in a string array, the numbers otherwise.
\<close>

definition indicator :: "dtype \<Rightarrow> bool \<Rightarrow> cell" where
  "indicator dt b =
     (case dt of
        Unicode \<Rightarrow> Str (if b then ''1.0'' else ''0.0'')
      | Numeric \<Rightarrow> Num (if b then 1 else 0)
      | Object \<Rightarrow> Num (if b then 1 else 0))"

text \<open>\<^verbatim>\<open>X[:, j]\<close> and \<^verbatim>\<open>np.delete(X, j, axis=1)\<close>, both for \<open>j\<close> in range.\<close>

definition column :: "'a matrix \<Rightarrow> nat \<Rightarrow> 'a list" where
  "column X j = map (\<lambda>r. r ! j) (rows X)"

definition np_delete :: "'a matrix \<Rightarrow> nat \<Rightarrow> 'a matrix" where
  "np_delete X j = Matrix (ncols X - 1) (map (\<lambda>r. take j r @ drop (Suc j) r) (rows X))"

definition hconcat :: "'a matrix \<Rightarrow> 'a matrix \<Rightarrow> 'a matrix" where
  "hconcat A B = Matrix (ncols A + ncols B) (map2 (@) (rows A) (rows B))"

text \<open>
  \<^verbatim>\<open>np.concatenate((A, one_hot, C), axis=1)\<close> for two parts \<open>A\<close> and \<open>C\<close> of an array of
  dtype \<open>dt\<close> and the float64 array \<open>one_hot\<close>: the result has the promoted dtype, which is
  \<open>dt\<close> again for each of the three kinds, and the entries of \<open>one_hot\<close> are cast to it.
  The three arrays have the same number of rows wherever it is applied below.
\<close>

definition concatenate3 :: "dtype \<Rightarrow> cell matrix \<Rightarrow> bool matrix \<Rightarrow> cell matrix \<Rightarrow> carray" where
  "concatenate3 dt A one_hot C =
     Array dt (hconcat (hconcat A (Matrix (ncols one_hot) (map (map (indicator dt)) (rows one_hot)))) C)"

text \<open>The body of the loop of \<^verbatim>\<open>one_hot_encode\<close>.\<close>

definition encode_column :: "carray \<Rightarrow> nat \<Rightarrow> bool \<Rightarrow> error + carray" where
  "encode_column X index drop_first =
     (if ncols (cells X) \<le> index then Inl IndexError
      else
        (let categorical_column = column (cells X) index
         in (case np_unique categorical_column of
               Inl e \<Rightarrow> Inl e
             | Inr unique_values \<Rightarrow>
                 (let k = length unique_values;
                      one_hot = Matrix k (map (\<lambda>v. eye_row k (searchsorted unique_values v))
                                           categorical_column);
                      one_hot1 = (if drop_first then cols_from one_hot 1 else one_hot);
                      X1 = np_delete (cells X) index
                  in Inr (concatenate3 (dtype X) (cols_before X1 index) one_hot1
                            (cols_from X1 index))))))"

fun encode_loop :: "carray \<Rightarrow> nat list \<Rightarrow> bool \<Rightarrow> error + carray" where
  "encode_loop X [] drop_first = Inr X"
| "encode_loop X (index # indices) drop_first =
     (case encode_column X index drop_first of
        Inl e \<Rightarrow> Inl e
      | Inr X1 \<Rightarrow> encode_loop X1 indices drop_first)"

text \<open>The value that \<^verbatim>\<open>one_hot_encode\<close> returns, as a function of the value of \<open>X\<close>.\<close>

definition one_hot_encode :: "carray \<Rightarrow> nat list \<Rightarrow> bool \<Rightarrow> error + carray" where
  "one_hot_encode X categorical_indices drop_first =
     encode_loop X (rev (sort categorical_indices)) drop_first"

text \<open>
  The same function on a store of arrays, to tell the array it returns from its argument.
  An address is an index into the store; \<^verbatim>\<open>X.copy()\<close> and every pass of the loop bind
  \<^verbatim>\<open>X_transformed\<close> to a newly allocated array (the temporaries of a pass are not
  recorded), and no array is written to after its allocation.
\<close>

type_synonym store = "carray list"

definition alloc :: "store \<Rightarrow> carray \<Rightarrow> store \<times> nat" where
  "alloc h A = (h @ [A], length h)"

fun encode_loop_st :: "store \<Rightarrow> nat \<Rightarrow> nat list \<Rightarrow> bool \<Rightarrow> store \<times> (error + nat)" where
  "encode_loop_st h xt [] drop_first = (h, Inr xt)"
| "encode_loop_st h xt (index # indices) drop_first =
     (case encode_column (h ! xt) index drop_first of
        Inl e \<Rightarrow> (h, Inl e)
      | Inr A \<Rightarrow> (case alloc h A of (h1, xt1) \<Rightarrow> encode_loop_st h1 xt1 indices drop_first))"

definition one_hot_encode_st :: "store \<Rightarrow> nat \<Rightarrow> nat list \<Rightarrow> bool \<Rightarrow> store \<times> (error + nat)" where
  "one_hot_encode_st h x categorical_indices drop_first =
     (case alloc h (h ! x) of
        (h1, xt) \<Rightarrow> encode_loop_st h1 xt (rev (sort categorical_indices)) drop_first)"

section \<open>Terms used in the statements\<close>

text \<open>
  The residual of one epoch, prediction minus target per row, for the feature matrix \<open>X\<close>
  (without the bias column), the coefficients \<open>w\<close> and the intercept \<open>b\<close>.
\<close>

definition residual :: "real matrix \<Rightarrow> real list \<Rightarrow> real \<Rightarrow> real list \<Rightarrow> real list" where
  "residual X w b y = map2 (\<lambda>r t. dot r w + b - t) (rows X) y"

text \<open>
  A column can be sorted when its cells are all numbers or all strings. Its levels are its
  distinct values in increasing order, and \<open>block dt drop_first col v\<close> is the run of
  entries that one_hot_encode writes for the value \<open>v\<close> of the column \<open>col\<close> in an array of
  dtype \<open>dt\<close>: a 1 at the rank of \<open>v\<close> among the levels and 0 elsewhere, without its first
  entry when \<open>drop_first\<close> is set; \<open>width drop_first col\<close> is its length.
\<close>

definition homogeneous :: "cell list \<Rightarrow> bool" where
  "homogeneous col = (nums_of col \<noteq> None \<or> strs_of col \<noteq> None)"

definition levels :: "cell list \<Rightarrow> cell list" where
  "levels col = (case np_unique col of Inl e \<Rightarrow> [] | Inr us \<Rightarrow> us)"

definition width :: "bool \<Rightarrow> cell list \<Rightarrow> nat" where
  "width d col = (if d then length (levels col) - 1 else length (levels col))"

definition block :: "dtype \<Rightarrow> bool \<Rightarrow> cell list \<Rightarrow> cell \<Rightarrow> cell list" where
  "block dt drop_first col v =
     map (indicator dt)
       ((if drop_first then drop 1 else id)
          (eye_row (length (levels col)) (searchsorted (levels col) v)))"

text \<open>
  Two data arrays with the categories "a", "b", "c" in the first column and the single
  category "x" in the second: one of string dtype, one of dtype object with a numeric
  third column.
\<close>

definition X_str :: carray where
  "X_str = Array Unicode (Matrix 2 [[Str ''b'', Str ''x''], [Str ''a'', Str ''x''],
                                    [Str ''c'', Str ''x''], [Str ''b'', Str ''x'']])"

definition X_obj :: carray where
  "X_obj = Array Object (Matrix 3 [[Str ''b'', Str ''x'', Num 7], [Str ''a'', Str ''x'', Num 8],
                                   [Str ''c'', Str ''x'', Num 9], [Str ''b'', Str ''x'', Num 10]])"

section \<open>Shapes\<close>

lemmas matrix_defs = mm3_def symmetric_prod_def wf_matrix_def nrows_def matmul_def T_def dot_def

lemma T_shape: "ncols (T X) = nrows X" "nrows (T X) = ncols X"
  by (simp_all add: T_def nrows_def)

lemma matmul_shape:
  assumes "ncols A = nrows B"
  shows "\<exists>C. matmul A B = Inr C \<and> ncols C = ncols B \<and> nrows C = nrows A"
  using assms by (simp add: matmul_def nrows_def)

lemma matvec_length:
  assumes "ncols A = length v"
  shows "\<exists>w. matvec A v = Inr w \<and> length w = nrows A"
  using assms by (simp add: matvec_def nrows_def)

lemma double_ones:
  "c_ones (insert_ones X) = Matrix (ncols X + 2) (map (\<lambda>r. 1 # 1 # r) (rows X))"
  by (simp add: c_ones_def insert_ones_def)

lemma normal_equation_length:
  assumes "pinv_ok pinv X" and "length y = nrows X"
  shows "\<exists>beta. normal_equation pinv X y = Inr beta \<and> length beta = ncols X"
proof -
  obtain G where G: "matmul (T X) X = Inr G" "ncols G = ncols X" "nrows G = ncols X"
    using matmul_shape[of "T X" X] by (auto simp: T_shape)
  with assms(1) have mp: "moore_penrose G (pinv G)"
    by (simp add: pinv_ok_def)
  then have "ncols (pinv G) = nrows (T X)" "nrows (pinv G) = ncols X"
    using G by (simp_all add: moore_penrose_def T_shape)
  then obtain A where A: "matmul (pinv G) (T X) = Inr A" "ncols A = nrows X" "nrows A = ncols X"
    using matmul_shape[of "pinv G" "T X"] by (auto simp: T_shape)
  with assms(2) obtain beta where "matvec A y = Inr beta" "length beta = ncols X"
    using matvec_length[of A y] by auto
  with G A show ?thesis
    by (simp add: normal_equation_def)
qed

lemma fit_least_squares_unfold:
  "fit pinv rnd m (Arr2 X) y ''least_squares'' lr iterations
     = store_beta m (normal_equation pinv (c_ones (insert_ones X)) y)"
  by (simp add: fit_def fit_multiple_def)

section \<open>The pseudo-inverse of the example\<close>

lemma moore_penrose_Q0: "moore_penrose G0 Q0"
  by (simp add: moore_penrose_def G0_def Q0_def matrix_defs eval_nat_numeral)

lemma gram_X0: "matmul (T (c_ones (insert_ones X0))) (c_ones (insert_ones X0)) = Inr G0"
  by (simp add: X0_def c_ones_def insert_ones_def matmul_def T_def nrows_def dot_def G0_def)

lemma pinv_ok_Q0: "pinv_ok (\<lambda>A. Q0) (c_ones (insert_ones X0))"
  using moore_penrose_Q0 by (simp add: pinv_ok_def gram_X0)

lemma length3: "length r = 3 \<Longrightarrow> \<exists>a b c. r = [a, b, c]"
  by (cases r; cases "tl r"; cases "tl (tl r)"; cases "tl (tl (tl r))") auto

lemma matrix_3_3:
  assumes "wf_matrix P" "nrows P = 3" "ncols P = 3"
  shows "\<exists>a b c d e f g h i. P = Matrix 3 [[a, b, c], [d, e, f], [g, h, i]]"
proof -
  obtain rs where P: "P = Matrix 3 rs"
    using assms(3) by (cases P) auto
  from assms(2) P obtain r1 r2 r3 where rs: "rs = [r1, r2, r3]"
    using length3[of rs] by (auto simp: nrows_def)
  from assms(1) P rs have "length r1 = 3" "length r2 = 3" "length r3 = 3"
    by (auto simp: wf_matrix_def)
  then show ?thesis
    using P rs length3[of r1] length3[of r2] length3[of r3] by auto
qed

text \<open>The pseudo-inverse is unique: whatever \<open>pinv\<close> returns for \<open>G0\<close>, it is \<open>Q0\<close>.\<close>

lemma moore_penrose_G0_unique:
  assumes "moore_penrose G0 P"
  shows "P = Q0"
proof -
  from assms have "wf_matrix P" "nrows P = 3" "ncols P = 3"
    by (auto simp: moore_penrose_def G0_def nrows_def)
  then obtain a b c d e f g h i where P: "P = Matrix 3 [[a, b, c], [d, e, f], [g, h, i]]"
    using matrix_3_3 by blast
  from assms have c1: "mm3 G0 P G0 = Inr G0" and c2: "mm3 P G0 P = Inr P"
    and c3: "symmetric_prod G0 P" and c4: "symmetric_prod P G0"
    by (simp_all add: moore_penrose_def)
  note l1 = c1[unfolded P G0_def matrix_defs, simplified eval_nat_numeral, simplified]
  note l3 = c3[unfolded P G0_def matrix_defs, simplified eval_nat_numeral, simplified]
  note l4 = c4[unfolded P G0_def matrix_defs, simplified eval_nat_numeral, simplified]
  note q2 = c2[unfolded P G0_def matrix_defs, simplified eval_nat_numeral, simplified]
  from l1 l3 l4 have L1: "a * 3 + (b * 3 + c * 3) = 1 / 2" by linarith
  from l1 l3 l4 have L2: "a * 3 + (b * 3 + c * 5) = 0" by linarith
  from l1 l3 l4 have L3: "d * 3 + (e * 3 + f * 3) = 1 / 2" by linarith
  from l1 l3 l4 have L4: "d * 3 + (e * 3 + f * 5) = 0" by linarith
  from l1 l3 l4 have L5: "g * 3 + (h * 3 + i * 3) = 0" by linarith
  from l1 l3 l4 have L6: "g * 3 + (h * 3 + i * 5) = 1" by linarith
  from l1 l3 l4 have lin: "c = - 1 / 4" "f = - 1 / 4" "g = - 1 / 4" "h = - 1 / 4" "i = 1 / 2"
    "b = 5 / 12 - a" "d = 5 / 12 - a" "e = a"
    by linarith+
  note q = q2[unfolded L1 L2 L3 L4 L5 L6]
  from q have "a = d" by linarith
  with lin have "a = 5 / 24" "b = 5 / 24" "d = 5 / 24" "e = 5 / 24"
    by linarith+
  with lin show ?thesis
    by (simp add: P Q0_def)
qed

section \<open>One epoch of gradient descent\<close>

lemma cols_from_insert_ones: "cols_from (insert_ones X) (Suc 0) = X"
  by (cases X) (simp add: cols_from_def insert_ones_def comp_def)

lemma predict_fitted_2d:
  assumes "coefficients m = Some w" "intercept m = Some b" "length w = ncols X"
  shows "predict m (Arr2 X) = Inr (map (\<lambda>r. dot r w + b) (rows X))"
  using assms by (simp add: predict_def matvec_def comp_def)

lemma np_sub_same_length:
  assumes "length p = length y"
  shows "np_sub p y = Inr (map2 (-) p y)"
  using assms by (simp add: np_sub_def)

lemma np_isub_scalar: "np_isub w [s] = Inr (map (\<lambda>v. v - s) w)"
proof (cases "length w = 1")
  case True
  then obtain v where "w = [v]" by (cases w) auto
  then show ?thesis by (simp add: np_isub_def)
next
  case False
  then show ?thesis by (auto simp add: np_isub_def)
qed

lemma sum_nth_row: "(\<Sum>j\<leftarrow>[0..<length r]. r ! j * (e::real)) = sum_list r * e"
proof -
  have "(\<Sum>j\<leftarrow>[0..<length r]. r ! j * e) = (\<Sum>x\<leftarrow>map (\<lambda>j. r ! j) [0..<length r]. x * e)"
    by (simp add: comp_def)
  also have "\<dots> = sum_list r * e"
    using sum_list_mult_const[of "\<lambda>x. x" e r] by (simp only: map_nth) simp
  finally show ?thesis .
qed

lemma cols_dot_sum:
  assumes "\<forall>r\<in>set rs. length r = c" and "length es = length rs"
  shows "(\<Sum>j\<leftarrow>[0..<c]. dot (map (\<lambda>r. r ! j) rs) es) = (\<Sum>(r, e)\<leftarrow>zip rs es. sum_list r * e)"
  using assms
proof (induction rs arbitrary: es)
  case Nil
  then show ?case by (simp add: dot_def)
next
  case (Cons r rs)
  then obtain e es' where es: "es = e # es'" by (cases es) auto
  have len: "length r = c" using Cons.prems by simp
  have "(\<Sum>j\<leftarrow>[0..<c]. dot (map (\<lambda>r. r ! j) (r # rs)) es)
      = (\<Sum>j\<leftarrow>[0..<c]. r ! j * e + dot (map (\<lambda>r. r ! j) rs) es')"
    by (simp add: es dot_def)
  also have "\<dots> = (\<Sum>j\<leftarrow>[0..<c]. r ! j * e) + (\<Sum>j\<leftarrow>[0..<c]. dot (map (\<lambda>r. r ! j) rs) es')"
    by (simp add: sum_list_addf)
  also have "(\<Sum>j\<leftarrow>[0..<c]. r ! j * e) = sum_list r * e"
    using sum_nth_row[of r e] len by simp
  also have "(\<Sum>j\<leftarrow>[0..<c]. dot (map (\<lambda>r. r ! j) rs) es') = (\<Sum>(r, e)\<leftarrow>zip rs es'. sum_list r * e)"
    using Cons.IH[of es'] Cons.prems es by simp
  finally show ?case by (simp add: es)
qed

lemma gradient_w_one:
  assumes "y \<noteq> []" and "length err = nrows X"
  shows "gradient_w_loop X err lr (length y) [Suc 0..<2]
           = Inr [2 * lr / real (length y) * (\<Sum>c\<leftarrow>rows (T X). dot c err)]"
proof -
  have "[Suc 0..<2] = [Suc 0]"
    by (simp add: upt_rec)
  then show ?thesis
    using assms by (simp add: matvec_def T_shape)
qed

lemma gd_epoch_insert_ones:
  assumes "wf_matrix X" and "coefficients m = Some w" and "intercept m = Some b"
    and "length w = ncols X" and "length y = nrows X" and "y \<noteq> []"
  shows "gd_epoch (insert_ones X) y lr m
           = (None, m\<lparr>intercept := Some (b - lr * (2 / real (length y) * sum_list (residual X w b y))),
                      coefficients := Some (map (\<lambda>v. v - 2 * lr / real (length y)
                          * (\<Sum>(r, e)\<leftarrow>zip (rows X) (residual X w b y). (1 + sum_list r) * e)) w)\<rparr>)"
proof -
  let ?Xb = "insert_ones X"
  let ?err = "residual X w b y"
  have pred: "predict m (Arr2 (cols_from ?Xb (Suc 0))) = Inr (map (\<lambda>r. dot r w + b) (rows X))"
    using assms by (simp add: cols_from_insert_ones predict_fitted_2d)
  have sub: "np_sub (map (\<lambda>r. dot r w + b) (rows X)) y = Inr ?err"
    using assms(5) by (simp add: np_sub_same_length residual_def nrows_def zip_map1 comp_def case_prod_beta)
  have len: "length ?err = nrows ?Xb"
    using assms(5) by (simp add: residual_def nrows_def insert_ones_def)
  have wfb: "\<forall>r\<in>set (rows ?Xb). length r = ncols ?Xb"
    using assms(1) by (auto simp: wf_matrix_def insert_ones_def list_all_iff)
  have "(\<Sum>c\<leftarrow>rows (T ?Xb). dot c ?err) = (\<Sum>(r, e)\<leftarrow>zip (rows ?Xb) ?err. sum_list r * e)"
    using cols_dot_sum[OF wfb, of ?err] len by (simp add: T_def nrows_def comp_def)
  also have "\<dots> = (\<Sum>(r, e)\<leftarrow>zip (rows X) ?err. (1 + sum_list r) * e)"
    by (simp add: insert_ones_def zip_map1 comp_def split_def)
  finally have grad: "gradient_w_loop ?Xb ?err lr (length y) [Suc 0..<2]
      = Inr [2 * lr / real (length y) * (\<Sum>(r, e)\<leftarrow>zip (rows X) ?err. (1 + sum_list r) * e)]"
    using gradient_w_one[OF assms(6) len] by simp
  show ?thesis
    using assms(2,3,6) by (simp add: gd_epoch_def pred sub grad np_isub_scalar del: upt_Suc)
qed

text \<open>
  The hypotheses of \<open>gd_epoch_insert_ones\<close> hold again after the epoch, so they hold in
  every epoch of a fit, and a fit on data of matching shapes raises nothing.
\<close>

lemma gd_loop_fitted:
  assumes "wf_matrix X" and "coefficients m = Some w" and "intercept m = Some b"
    and "length w = ncols X" and "length y = nrows X" and "y \<noteq> []"
  shows "\<exists>w' b'. gd_loop k (insert_ones X) y lr m
                   = (None, m\<lparr>intercept := Some b', coefficients := Some w'\<rparr>)
               \<and> length w' = ncols X"
  using assms
proof (induction k arbitrary: m w b)
  case 0
  then have "m\<lparr>intercept := Some b, coefficients := Some w\<rparr> = m"
    by (cases m) simp
  with 0 show ?case
    by (metis gd_loop.simps(1))
next
  case (Suc k)
  let ?b1 = "b - lr * (2 / real (length y) * sum_list (residual X w b y))"
  let ?w1 = "map (\<lambda>v. v - 2 * lr / real (length y)
                * (\<Sum>(r, e)\<leftarrow>zip (rows X) (residual X w b y). (1 + sum_list r) * e)) w"
  let ?m1 = "m\<lparr>intercept := Some ?b1, coefficients := Some ?w1\<rparr>"
  have step: "gd_epoch (insert_ones X) y lr m = (None, ?m1)"
    using Suc.prems by (rule gd_epoch_insert_ones)
  have "\<exists>w' b'. gd_loop k (insert_ones X) y lr ?m1
                   = (None, ?m1\<lparr>intercept := Some b', coefficients := Some w'\<rparr>)
               \<and> length w' = ncols X"
    using Suc.prems by (intro Suc.IH[of ?m1 ?w1 ?b1]) simp_all
  then show ?case
    by (simp add: step)
qed

lemma fit_gradient_descent_unfold:
  "fit pinv rnd m (Arr2 X) y ''gradient_descent'' lr iterations
     = gd_loop (nat iterations) (insert_ones X) y lr
         (m\<lparr>coefficients := Some (map (\<lambda>i. rnd i * (1 / 100)) [0..<ncols X]),
            intercept := Some (rnd (ncols X) * (1 / 100))\<rparr>)"
  by (simp add: fit_def fit_gradient_descent_def insert_ones_def Let_def)

lemma fit_gradient_descent_fitted:
  assumes "wf_matrix X" and "length y = nrows X" and "y \<noteq> []"
  shows "\<exists>w' b'. fit pinv rnd m (Arr2 X) y ''gradient_descent'' lr iterations
                   = (None, m\<lparr>intercept := Some b', coefficients := Some w'\<rparr>)
               \<and> length w' = ncols X"
proof -
  let ?w0 = "map (\<lambda>i. rnd i * (1 / 100)) [0..<ncols X]"
  let ?b0 = "rnd (ncols X) * (1 / 100)"
  let ?m0 = "m\<lparr>coefficients := Some ?w0, intercept := Some ?b0\<rparr>"
  have "\<exists>w' b'. gd_loop (nat iterations) (insert_ones X) y lr ?m0
                   = (None, ?m0\<lparr>intercept := Some b', coefficients := Some w'\<rparr>)
               \<and> length w' = ncols X"
    using assms by (intro gd_loop_fitted[of X ?m0 ?w0 ?b0]) simp_all
  then show ?thesis
    by (simp add: fit_gradient_descent_unfold)
qed

section \<open>One pass of the encoder\<close>

lemma splice_rows:
  assumes "\<forall>r\<in>set rs. index < length r"
  shows "map2 (@) (map2 (@) (map (take index) (map (\<lambda>r. take index r @ drop (Suc index) r) rs))
                            (map (\<lambda>v. g v) (map (\<lambda>r. r ! index) rs)))
                  (map (drop index) (map (\<lambda>r. take index r @ drop (Suc index) r) rs))
           = map (\<lambda>r. take index r @ g (r ! index) @ drop (Suc index) r) rs"
  using assms by (induction rs) auto

lemma homogeneous_unique: "homogeneous col \<Longrightarrow> np_unique col = Inr (levels col)"
  by (auto simp: homogeneous_def levels_def np_unique_def split: option.splits)

lemma length_block:
  "length (block dt d col v) = (if d then length (levels col) - 1 else length (levels col))"
  by (simp add: block_def eye_row_def)

text \<open>One pass of the loop, row by row.\<close>

lemma encode_column_rows:
  assumes "wf_matrix M" and "index < ncols M" and "homogeneous (column M index)"
  shows "encode_column (Array dt M) index d
           = Inr (Array dt (Matrix (ncols M - 1
                                     + (if d then length (levels (column M index)) - 1
                                        else length (levels (column M index))))
                   (map (\<lambda>r. take index r @ block dt d (column M index) (r ! index)
                              @ drop (Suc index) r) (rows M))))"
proof -
  have len: "\<forall>r\<in>set (rows M). index < length r"
    using assms(1,2) by (auto simp: wf_matrix_def list_all_iff)
  note u = homogeneous_unique[OF assms(3)]
  show ?thesis
  proof (cases d)
    case True
    then show ?thesis
      using assms(2) u
        splice_rows[OF len, of "\<lambda>v. block dt True (map (\<lambda>r. r ! index) (rows M)) v"]
      by (simp add: encode_column_def concatenate3_def hconcat_def cols_before_def cols_from_def
          np_delete_def column_def comp_def Let_def block_def drop_map)
  next
    case False
    then show ?thesis
      using assms(2) u
        splice_rows[OF len, of "\<lambda>v. block dt False (map (\<lambda>r. r ! index) (rows M)) v"]
      by (simp add: encode_column_def concatenate3_def hconcat_def cols_before_def cols_from_def
          np_delete_def column_def comp_def Let_def block_def)
  qed
qed

lemma concat_singletons_from:
  "a \<le> length r \<Longrightarrow> concat (map (\<lambda>j. [r ! j]) [a..<length r]) = drop a r"
proof -
  assume "a \<le> length r"
  have "concat (map (\<lambda>j. [r ! j]) [a..<length r]) = map (\<lambda>j. r ! j) [a..<length r]"
    by (induction "[a..<length r]" arbitrary: a) (simp_all add: concat_map_singleton)
  also have "\<dots> = drop a (map (\<lambda>j. r ! j) [0..<length r])"
    by (simp add: drop_map)
  also have "\<dots> = drop a r"
    by (simp add: map_nth)
  finally show ?thesis .
qed


lemma concat_split_at:
  assumes "i \<le> n" and "length r = n" and "\<forall>j. i \<le> j \<and> j < n \<longrightarrow> f j = [r ! j]"
  shows "concat (map f [0..<n]) = concat (map f [0..<i]) @ drop i r"
proof -
  have "[0..<n] = [0..<i] @ [i..<n]"
    using assms(1) by (metis le_add_diff_inverse upt_add_eq_append zero_le)
  then have "concat (map f [0..<n]) = concat (map f [0..<i]) @ concat (map f [i..<n])"
    by simp
  also have "map f [i..<n] = map (\<lambda>j. [r ! j]) [i..<n]"
    using assms(3) by (intro map_cong) auto
  also have "concat (map (\<lambda>j. [r ! j]) [i..<n]) = drop i r"
    using concat_singletons_from[of i r] assms(1,2) by simp
  finally show ?thesis .
qed

lemma sum_split_at:
  assumes "i \<le> n" and "\<forall>j. i \<le> j \<and> j < n \<longrightarrow> g j = (1::nat)"
  shows "(\<Sum>j\<leftarrow>[0..<n]. g j) = (\<Sum>j\<leftarrow>[0..<i]. g j) + (n - i)"
proof -
  have "[0..<n] = [0..<i] @ [i..<n]"
    using assms(1) by (metis le_add_diff_inverse upt_add_eq_append zero_le)
  then have "(\<Sum>j\<leftarrow>[0..<n]. g j) = (\<Sum>j\<leftarrow>[0..<i]. g j) + (\<Sum>j\<leftarrow>[i..<n]. g j)"
    by simp
  also have "map g [i..<n] = map (\<lambda>j. 1) [i..<n]"
    using assms(2) by (intro map_cong) auto
  also have "(\<Sum>j\<leftarrow>[i..<n]. (1::nat)) = n - i"
    by (simp add: sum_list_triv)
  finally show ?thesis .
qed

lemma encode_loop_rows:
  assumes "wf_matrix M" and "distinct is" and "sorted (rev is)"
    and "\<forall>i\<in>set is. i < ncols M \<and> homogeneous (column M i)"
  shows "encode_loop (Array dt M) is d
           = Inr (Array dt (Matrix (\<Sum>j\<leftarrow>[0..<ncols M]. if j \<in> set is then width d (column M j) else 1)
                   (map (\<lambda>r. concat (map (\<lambda>j. if j \<in> set is then block dt d (column M j) (r ! j)
                                               else [r ! j]) [0..<ncols M]))
                      (rows M))))"
  using assms
proof (induction "is" arbitrary: M)
  case Nil
  have "map (\<lambda>r. concat (map (\<lambda>j. [r ! j]) [0..<ncols M])) (rows M) = map (\<lambda>r. r) (rows M)"
  proof (rule map_cong[OF refl])
    fix r assume "r \<in> set (rows M)"
    then have "length r = ncols M"
      using Nil.prems(1) by (auto simp: wf_matrix_def list_all_iff)
    then show "concat (map (\<lambda>j. [r ! j]) [0..<ncols M]) = r"
      using concat_singletons_from[of 0 r] by simp
  qed
  then show ?case
    by (cases M) (simp add: sum_list_triv)
next
  case (Cons i rest)
  let ?c = "ncols M"
  let ?B = "\<lambda>r. block dt d (column M i) (r ! i)"
  let ?g = "\<lambda>r. take i r @ ?B r @ drop (Suc i) r"
  let ?n1 = "?c - 1 + width d (column M i)"
  let ?M1 = "Matrix ?n1 (map ?g (rows M))"
  let ?f = "\<lambda>r j. if j \<in> set (i # rest) then block dt d (column M j) (r ! j) else [r ! j]"
  let ?f1 = "\<lambda>r1 j. if j \<in> set rest then block dt d (column ?M1 j) (r1 ! j) else [r1 ! j]"
  have i: "i < ?c" and hom: "homogeneous (column M i)"
    using Cons.prems(4) by simp_all
  have len: "length r = ?c" if "r \<in> set (rows M)" for r
    using that Cons.prems(1) by (auto simp: wf_matrix_def list_all_iff)
  have lenB: "length (?B r) = width d (column M i)" for r
    by (simp add: length_block width_def)
  have leng: "length (?g r) = ?n1" if "r \<in> set (rows M)" for r
    using len[OF that] i lenB by simp
  have lt: "j < i" if "j \<in> set rest" for j
  proof -
    from Cons.prems(3) have "\<forall>x\<in>set (rev rest). x \<le> i"
      by (simp add: sorted_append)
    with that have "j \<le> i" by simp
    moreover from Cons.prems(2) that have "j \<noteq> i" by auto
    ultimately show ?thesis by simp
  qed
  have f1_hi: "?f1 r1 j = [r1 ! j]" if "i \<le> j" for r1 j
    using lt[of j] that by auto
  have f_hi: "?f r j = [r ! j]" if "Suc i \<le> j" for r j
    using lt[of j] that by auto
  have step: "encode_column (Array dt M) i d = Inr (Array dt ?M1)"
    using encode_column_rows[OF Cons.prems(1) i hom, of dt d] by (simp add: width_def)
  have wf1: "wf_matrix ?M1"
    using leng by (simp add: wf_matrix_def list_all_iff)
  have nth1: "?g r ! j = r ! j" if "r \<in> set (rows M)" "j < i" for r j
    using len[OF that(1)] i that(2) by (simp add: nth_append)
  have col1: "column ?M1 j = column M j" if "j < i" for j
    using nth1 that by (simp add: column_def)
  have pre1: "\<forall>j\<in>set rest. j < ncols ?M1 \<and> homogeneous (column ?M1 j)"
  proof
    fix j assume j: "j \<in> set rest"
    then have ji: "j < i" by (rule lt)
    have hj: "homogeneous (column M j)" using Cons.prems(4) j by simp
    have "column ?M1 j = column M j" using ji by (rule col1)
    with hj have "homogeneous (column ?M1 j)" by (simp only:)
    moreover have "j < ncols ?M1" using ji i by simp
    ultimately show "j < ncols ?M1 \<and> homogeneous (column ?M1 j)" by (intro conjI)
  qed
  have IH: "encode_loop (Array dt ?M1) rest d
      = Inr (Array dt (Matrix (\<Sum>j\<leftarrow>[0..<ncols ?M1]. if j \<in> set rest then width d (column ?M1 j) else 1)
              (map (\<lambda>r1. concat (map (?f1 r1) [0..<ncols ?M1])) (rows ?M1))))"
    using Cons.prems(2,3) by (intro Cons.IH[OF wf1 _ _ pre1]) (simp_all add: sorted_append)
  have rows: "concat (map (?f1 (?g r)) [0..<?n1]) = concat (map (?f r) [0..<?c])"
    if r: "r \<in> set (rows M)" for r
  proof -
    have "concat (map (?f1 (?g r)) [0..<?n1]) = concat (map (?f1 (?g r)) [0..<i]) @ drop i (?g r)"
      using i leng[OF r] f1_hi by (intro concat_split_at) simp_all
    also have "map (?f1 (?g r)) [0..<i] = map (?f r) [0..<i]"
      using nth1[OF r] col1 by (intro map_cong) auto
    also have "drop i (?g r) = ?B r @ drop (Suc i) r"
      using len[OF r] i by simp
    finally have 1: "concat (map (?f1 (?g r)) [0..<?n1])
        = concat (map (?f r) [0..<i]) @ ?B r @ drop (Suc i) r" .
    have "concat (map (?f r) [0..<?c]) = concat (map (?f r) [0..<Suc i]) @ drop (Suc i) r"
      using i len[OF r] f_hi by (intro concat_split_at) simp_all
    also have "concat (map (?f r) [0..<Suc i]) = concat (map (?f r) [0..<i]) @ ?B r"
      by simp
    finally show ?thesis
      using 1 by simp
  qed
  have cols: "(\<Sum>j\<leftarrow>[0..<?n1]. if j \<in> set rest then width d (column ?M1 j) else 1)
      = (\<Sum>j\<leftarrow>[0..<?c]. if j \<in> set (i # rest) then width d (column M j) else 1)"
  proof -
    let ?h1 = "\<lambda>j. if j \<in> set rest then width d (column ?M1 j) else 1"
    let ?h = "\<lambda>j. if j \<in> set (i # rest) then width d (column M j) else 1"
    have h1_hi: "?h1 j = 1" if "i \<le> j" for j
      using lt[of j] that by auto
    have h_hi: "?h j = 1" if "Suc i \<le> j" for j
      using lt[of j] that by auto
    have "(\<Sum>j\<leftarrow>[0..<?n1]. ?h1 j) = (\<Sum>j\<leftarrow>[0..<i]. ?h1 j) + (?n1 - i)"
      using i h1_hi by (intro sum_split_at) simp_all
    also have "map ?h1 [0..<i] = map ?h [0..<i]"
      using col1 by (intro map_cong) auto
    finally have 1: "(\<Sum>j\<leftarrow>[0..<?n1]. ?h1 j) = (\<Sum>j\<leftarrow>[0..<i]. ?h j) + (?n1 - i)" .
    have "(\<Sum>j\<leftarrow>[0..<?c]. ?h j) = (\<Sum>j\<leftarrow>[0..<Suc i]. ?h j) + (?c - Suc i)"
      using i h_hi by (intro sum_split_at) simp_all
    also have "(\<Sum>j\<leftarrow>[0..<Suc i]. ?h j) = (\<Sum>j\<leftarrow>[0..<i]. ?h j) + width d (column M i)"
      by simp
    finally show ?thesis
      using 1 i by simp
  qed
  have "map (\<lambda>r1. concat (map (?f1 r1) [0..<?n1])) (map ?g (rows M))
      = map (\<lambda>r. concat (map (?f r) [0..<?c])) (rows M)"
    using rows by (simp add: comp_def cong: map_cong)
  with IH cols step show ?case
    by simp
qed

section \<open>The encoder on distinct indices\<close>

text \<open>
  For distinct indices in range whose columns can be sorted, the result of one_hot_encode,
  column by column: a column that is not listed is kept, a listed one is replaced by the
  blocks of its values. The loop takes the indices in decreasing order, so a pass leaves
  the columns that are still to be encoded where they were.
\<close>

lemma one_hot_encode_rows:
  assumes "wf_matrix (cells X)" and "distinct indices"
    and "\<forall>i\<in>set indices. i < ncols (cells X) \<and> homogeneous (column (cells X) i)"
  shows "one_hot_encode X indices d
           = Inr (Array (dtype X)
                   (Matrix (\<Sum>j\<leftarrow>[0..<ncols (cells X)].
                              if j \<in> set indices then width d (column (cells X) j) else 1)
                      (map (\<lambda>r. concat (map (\<lambda>j. if j \<in> set indices
                                                  then block (dtype X) d (column (cells X) j) (r ! j)
                                                  else [r ! j]) [0..<ncols (cells X)]))
                         (rows (cells X)))))"
proof -
  obtain dt M where X: "X = Array dt M"
    by (cases X)
  have "encode_loop (Array dt M) (rev (sort indices)) d
      = Inr (Array dt (Matrix (\<Sum>j\<leftarrow>[0..<ncols M]. if j \<in> set (rev (sort indices))
                                   then width d (column M j) else 1)
                   (map (\<lambda>r. concat (map (\<lambda>j. if j \<in> set (rev (sort indices))
                                               then block dt d (column M j) (r ! j)
                                               else [r ! j]) [0..<ncols M]))
                      (rows M))))"
    using assms by (intro encode_loop_rows) (simp_all add: X)
  then show ?thesis
    unfolding X carray.sel one_hot_encode_def by simp
qed

lemma nums_of_Str: "Str s \<in> set col \<Longrightarrow> nums_of col = None"
  by (induction col rule: nums_of.induct) auto

lemma strs_of_all: "set col \<subseteq> range Str \<Longrightarrow> \<exists>ss. strs_of col = Some ss \<and> map Str ss = col"
  by (induction col rule: strs_of.induct) auto

lemma nums_of_all: "set col \<subseteq> range Num \<Longrightarrow> \<exists>xs. nums_of col = Some xs \<and> map Num xs = col"
  by (induction col rule: nums_of.induct) auto

lemma sort_remdups_eq:
  assumes "set xs = set ys" and "sorted ys" and "distinct ys"
  shows "sort (remdups xs) = ys"
  using assms by (intro sorted_distinct_set_unique) simp_all

lemma np_unique_abc:
  assumes "set col = {Str ''a'', Str ''b'', Str ''c''}"
  shows "np_unique col = Inr [Str ''a'', Str ''b'', Str ''c'']"
proof -
  from assms have "set col \<subseteq> range Str" by auto
  then obtain ss where ss: "strs_of col = Some ss" "map Str ss = col"
    using strs_of_all by blast
  have inj: "inj Str"
    by (simp add: inj_def)
  from ss(2) have "set col = Str ` set ss"
    by auto
  with assms have "Str ` set ss = Str ` {''a'', ''b'', ''c''}"
    by simp
  then have "set ss = {''a'', ''b'', ''c''}"
    by (rule iffD1[OF inj_image_eq_iff[OF inj]])
  then have "sort (remdups ss) = [''a'', ''b'', ''c'']"
    by (intro sort_remdups_eq) simp_all
  moreover have "nums_of col = None"
    using assms nums_of_Str[of "''a''" col] by simp
  ultimately show ?thesis
    using ss by (simp add: np_unique_def)
qed

lemma np_unique_single:
  assumes "set col = {v}"
  shows "np_unique col = Inr [v]"
proof (cases v)
  case (Num x)
  with assms have "set col \<subseteq> range Num" by auto
  then obtain xs where xs: "nums_of col = Some xs" "map Num xs = col"
    using nums_of_all by blast
  have inj: "inj Num"
    by (simp add: inj_def)
  from xs(2) have "set col = Num ` set xs"
    by auto
  with assms Num have "Num ` set xs = Num ` {x}"
    by simp
  then have "set xs = {x}"
    by (rule iffD1[OF inj_image_eq_iff[OF inj]])
  then have "sort (remdups xs) = [x]"
    by (intro sort_remdups_eq) simp_all
  with xs Num show ?thesis
    by (simp add: np_unique_def)
next
  case (Str s)
  with assms have "set col \<subseteq> range Str" by auto
  then obtain ss where ss: "strs_of col = Some ss" "map Str ss = col"
    using strs_of_all by blast
  have inj: "inj Str"
    by (simp add: inj_def)
  from ss(2) have "set col = Str ` set ss"
    by auto
  with assms Str have "Str ` set ss = Str ` {s}"
    by simp
  then have "set ss = {s}"
    by (rule iffD1[OF inj_image_eq_iff[OF inj]])
  then have "sort (remdups ss) = [s]"
    by (intro sort_remdups_eq) simp_all
  moreover have "nums_of col = None"
    using assms Str nums_of_Str[of s col] by simp
  ultimately show ?thesis
    using ss Str by (simp add: np_unique_def)
qed

lemma block_abc:
  assumes "set col = {Str ''a'', Str ''b'', Str ''c''}" and "v \<in> set col"
  shows "block dt False col v
           = map (indicator dt) (if v = Str ''a'' then [True, False, False]
                                 else if v = Str ''b'' then [False, True, False]
                                 else [False, False, True])"
    and "block dt True col v
           = map (indicator dt) (if v = Str ''a'' then [False, False]
                                 else if v = Str ''b'' then [True, False]
                                 else [False, True])"
  using assms(2) unfolding assms(1)
  by (auto simp: block_def levels_def np_unique_abc[OF assms(1)] searchsorted_def eye_row_def upt_rec)

lemma width_abc:
  assumes "set col = {Str ''a'', Str ''b'', Str ''c''}"
  shows "width False col = 3" and "width True col = 2"
  by (simp_all add: width_def levels_def np_unique_abc[OF assms])

lemma block_single:
  assumes "set col = {v}"
  shows "block dt True col u = []" and "width True col = 0"
  by (simp_all add: block_def width_def levels_def np_unique_single[OF assms] eye_row_def)

lemmas encoder_defs = wf_matrix_def column_def homogeneous_def width_def block_def levels_def
  np_unique_def searchsorted_def eye_row_def indicator_def upt_rec

lemma cell_less_irrefl: "\<not> cell_less v v"
  by (cases v) simp_all

lemma nums_of_Some: "nums_of col = Some xs \<Longrightarrow> map Num xs = col"
  by (induction col arbitrary: xs rule: nums_of.induct) auto

lemma strs_of_Some: "strs_of col = Some ss \<Longrightarrow> map Str ss = col"
  by (induction col arbitrary: ss rule: strs_of.induct) auto

lemma set_np_unique:
  assumes "np_unique col = Inr us"
  shows "set us = set col"
proof (cases "nums_of col")
  case (Some xs)
  with assms nums_of_Some[OF Some] show ?thesis
    by (auto simp: np_unique_def)
next
  case None
  with assms obtain ss where ss: "strs_of col = Some ss"
    by (auto simp: np_unique_def split: option.splits)
  with assms None strs_of_Some[OF ss] show ?thesis
    by (auto simp: np_unique_def)
qed

text \<open>
  The index that \<^verbatim>\<open>np.searchsorted\<close> returns for a value of the column is a row
  index of \<^verbatim>\<open>np.eye(k)\<close>: the indexing cannot raise.
\<close>

lemma searchsorted_less:
  assumes "np_unique col = Inr us" and "v \<in> set col"
  shows "searchsorted us v < length us"
proof -
  have "v \<in> set us"
    using assms set_np_unique by blast
  then have "takeWhile (\<lambda>u. cell_less u v) us \<noteq> us"
    using cell_less_irrefl by (auto simp: takeWhile_eq_all_conv)
  moreover have "length (takeWhile (\<lambda>u. cell_less u v) us) \<le> length us"
    by (rule length_takeWhile_le)
  moreover have "takeWhile (\<lambda>u. cell_less u v) us = us"
    if "length (takeWhile (\<lambda>u. cell_less u v) us) = length us"
    using that takeWhile_dropWhile_id[of "\<lambda>u. cell_less u v" us]
    by (metis append_eq_conv_conj take_all_iff le_refl)
  ultimately show ?thesis
    unfolding searchsorted_def by (meson le_neq_implies_less)
qed

section \<open>The encoder on a store\<close>

lemma encode_loop_st_value:
  assumes "xt < length h"
  shows "\<exists>h'. take (length h) h' = h \<and>
           (case encode_loop (h ! xt) indices d of
              Inl e \<Rightarrow> encode_loop_st h xt indices d = (h', Inl e)
            | Inr A \<Rightarrow> \<exists>r. encode_loop_st h xt indices d = (h', Inr r) \<and>
                          xt \<le> r \<and> r < length h' \<and> h' ! r = A)"
  using assms
proof (induction indices arbitrary: h xt)
  case Nil
  then show ?case
    by simp
next
  case (Cons index indices)
  show ?case
  proof (cases "encode_column (h ! xt) index d")
    case (Inl e)
    then show ?thesis
      by simp
  next
    case (Inr A)
    have "length h < length (h @ [A])"
      by simp
    from Cons.IH[OF this] obtain h' where
      h': "take (length (h @ [A])) h' = h @ [A]"
      "case encode_loop ((h @ [A]) ! length h) indices d of
         Inl e \<Rightarrow> encode_loop_st (h @ [A]) (length h) indices d = (h', Inl e)
       | Inr B \<Rightarrow> \<exists>r. encode_loop_st (h @ [A]) (length h) indices d = (h', Inr r) \<and>
                     length h \<le> r \<and> r < length h' \<and> h' ! r = B"
      by blast
    have "take (length h) h' = take (length h) (take (length (h @ [A])) h')"
      by (simp add: min_def)
    also have "\<dots> = h"
      by (simp only: h'(1)) simp
    finally have "take (length h) h' = h" .
    with h'(2) Inr Cons.prems show ?thesis
      by (auto simp: alloc_def split: sum.splits)
  qed
qed

text \<open>
  The array that the store version returns holds the value of \<open>one_hot_encode\<close>, at an
  address that was not allocated before the call, and the arrays allocated before the call
  are unchanged.
\<close>

lemma one_hot_encode_st_value:
  assumes "x < length h"
  shows "\<exists>h'. take (length h) h' = h \<and>
           (case one_hot_encode (h ! x) indices d of
              Inl e \<Rightarrow> one_hot_encode_st h x indices d = (h', Inl e)
            | Inr A \<Rightarrow> \<exists>r. one_hot_encode_st h x indices d = (h', Inr r) \<and>
                          length h \<le> r \<and> r < length h' \<and> h' ! r = A)"
proof -
  have "length h < length (h @ [h ! x])"
    by simp
  from encode_loop_st_value[OF this, of "rev (sort indices)" d] obtain h' where
    h': "take (length (h @ [h ! x])) h' = h @ [h ! x]"
    "case encode_loop ((h @ [h ! x]) ! length h) (rev (sort indices)) d of
       Inl e \<Rightarrow> encode_loop_st (h @ [h ! x]) (length h) (rev (sort indices)) d = (h', Inl e)
     | Inr B \<Rightarrow> \<exists>r. encode_loop_st (h @ [h ! x]) (length h) (rev (sort indices)) d = (h', Inr r) \<and>
                   length h \<le> r \<and> r < length h' \<and> h' ! r = B"
    by blast
  have "take (length h) h' = take (length h) (take (length (h @ [h ! x])) h')"
    by (simp add: min_def)
  also have "\<dots> = h"
    by (simp only: h'(1)) simp
  finally have "take (length h) h' = h" .
  with h'(2) show ?thesis
    by (auto simp: one_hot_encode_def one_hot_encode_st_def alloc_def split: sum.splits)
qed

section \<open>Metrics of a perfect prediction\<close>



lemma np_fsub_self:
  assumes "ieee_zero_laws fp"
  shows "np_fsub fp (map Finite ys) (map Finite ys) = Inr (replicate (length ys) (Finite 0))"
proof -
  have "map2 (fsub fp) (map Finite ys) (map Finite ys) = replicate (length ys) (Finite 0)"
    using assms by (induction ys) (simp_all add: ieee_zero_laws_def)
  then show ?thesis
    by (simp add: np_fsub_def)
qed

text \<open>When the computed TSS is 0, R2 is nan.\<close>

lemma evaluate_regression_zero_TSS:
  assumes "ieee_zero_laws fp" and "fdiv fp (Finite 0) (Finite 0) = NaN"
    and "fsub fp (Finite 1) NaN = NaN"
    and "ys \<noteq> []" and "TSS fp (map Finite ys) = Finite 0"
  shows "\<exists>m. evaluate_regression fp (map Finite ys) (map Finite ys) = Inr m \<and> R2 m = NaN"
proof -
  have z: "fsum fp (replicate n (Finite 0)) = Finite 0" for n
    using assms(1) by (simp add: ieee_zero_laws_def)
  have sq: "fsq fp (Finite 0) = Finite 0"
    using assms(1) by (simp add: ieee_zero_laws_def)
  show ?thesis
    using assms(2-5)
    by (simp add: evaluate_regression_def np_fsub_self[OF assms(1)] Let_def sq z)
qed

section \<open>Results\<close>

text \<open>
  C1. For the noiseless data \<open>y = 2x + 3\<close> at \<open>x = 0, 1, 2\<close>, fit with "least_squares"
  does not store intercept 3 and coefficient 2: the matrix it solves on has two columns of
  ones, the pseudo-inverse splits the constant term between them, and fit stores the
  intercept \<open>3/2\<close> and the two coefficients \<open>3/2\<close> and \<open>2\<close>.
\<close>

theorem fit_least_squares_2x_plus_3:
  assumes "pinv_ok pinv (c_ones (insert_ones X0))"
  shows "fit pinv rnd m (Arr2 X0) y0 ''least_squares'' lr iterations
           = (None, m\<lparr>intercept := Some (3 / 2), coefficients := Some [3 / 2, 2]\<rparr>)"
proof -
  from assms have "moore_penrose G0 (pinv G0)"
    by (simp add: pinv_ok_def gram_X0)
  then have "pinv G0 = Q0"
    by (rule moore_penrose_G0_unique)
  then have "normal_equation pinv (c_ones (insert_ones X0)) y0 = Inr [3 / 2, 3 / 2, 2]"
    by (simp add: normal_equation_def gram_X0)
      (simp add: X0_def y0_def c_ones_def insert_ones_def matmul_def matvec_def T_def nrows_def
        dot_def Q0_def)
  then show ?thesis
    by (simp add: fit_least_squares_unfold store_beta_def)
qed

theorem fit_least_squares_2x_plus_3_witness:
  "pinv_ok (\<lambda>A. Q0) (c_ones (insert_ones X0)) \<and>
   fit (\<lambda>A. Q0) (\<lambda>i. 0) init (Arr2 X0) y0 ''least_squares'' (1 / 100) 1000
     = (None, \<lparr>coefficients = Some [3 / 2, 2], intercept = Some (3 / 2)\<rparr>)"
  using fit_least_squares_2x_plus_3 [OF pinv_ok_Q0, of "\<lambda>i. 0" init "1 / 100" 1000] pinv_ok_Q0
  by (simp add: init_def)

text \<open>
  C2. On the feature matrix with the single column \<open>0, 1, 2\<close> (\<open>n = 3\<close>, \<open>p = 1\<close>), fit with
  "least_squares" solves the normal equation on the matrix with rows \<open>[1, 1, x]\<close>, of shape
  \<open>(3, 3)\<close>: two columns of ones are prepended, one by \<^verbatim>\<open>fit\<close> and one by
  \<^verbatim>\<open>fit_multiple\<close>, not one.
\<close>

theorem fit_least_squares_design_matrix:
  "fit pinv rnd m (Arr2 X0) y0 ''least_squares'' lr iterations
     = store_beta m (normal_equation pinv (Matrix 3 [[1, 1, 0], [1, 1, 1], [1, 1, 2]]) y0)"
  by (simp add: fit_least_squares_unfold c_ones_def insert_ones_def X0_def numeral_3_eq_3)

text \<open>
  C3. After fit with "least_squares" on a 2-D feature matrix with \<open>p\<close> columns and a target
  of matching length, the stored coefficient vector has length \<open>p + 1\<close>: the normal equation
  is solved on the matrix with rows \<open>1 # 1 # r\<close>. A following predict on any 2-D matrix
  with \<open>p\<close> columns raises numpy's ValueError for mismatched shapes.
\<close>

theorem fit_least_squares_then_predict_raises:
  assumes "pinv_ok pinv (c_ones (insert_ones X))" and "length y = nrows X"
  shows "\<exists>b w. fit pinv rnd m (Arr2 X) y ''least_squares'' lr iterations
                 = (None, m\<lparr>intercept := Some b, coefficients := Some w\<rparr>)
             \<and> b # w = projr (normal_equation pinv
                               (Matrix (ncols X + 2) (map (\<lambda>r. 1 # 1 # r) (rows X))) y)
             \<and> length w = ncols X + 1
             \<and> (\<forall>X'. ncols X' = ncols X \<longrightarrow>
                  predict (m\<lparr>intercept := Some b, coefficients := Some w\<rparr>) (Arr2 X')
                    = Inl (ValueError shapes_not_aligned))"
proof -
  have "length y = nrows (c_ones (insert_ones X))"
    using assms(2) by (simp add: double_ones nrows_def)
  with assms(1) obtain beta where
    beta: "normal_equation pinv (c_ones (insert_ones X)) y = Inr beta" "length beta = ncols X + 2"
    using normal_equation_length[of pinv "c_ones (insert_ones X)" y] by (auto simp: double_ones)
  then obtain b w where bw: "beta = b # w" "length w = ncols X + 1"
    by (cases beta) auto
  have "fit pinv rnd m (Arr2 X) y ''least_squares'' lr iterations
          = (None, m\<lparr>intercept := Some b, coefficients := Some w\<rparr>)"
    using beta bw by (simp add: fit_least_squares_unfold store_beta_def)
  moreover have "b # w = projr (normal_equation pinv
                               (Matrix (ncols X + 2) (map (\<lambda>r. 1 # 1 # r) (rows X))) y)"
    using beta bw by (simp add: double_ones)
  moreover have "predict (m\<lparr>intercept := Some b, coefficients := Some w\<rparr>) (Arr2 X')
      = Inl (ValueError shapes_not_aligned)" if "ncols X' = ncols X" for X'
    using that bw by (simp add: predict_def matvec_def)
  ultimately show ?thesis
    using bw by blast
qed

theorem fit_least_squares_then_predict_raises_witness:
  "pinv_ok (\<lambda>A. Q0) (c_ones (insert_ones X0)) \<and> length y0 = nrows X0 \<and>
   fit (\<lambda>A. Q0) (\<lambda>i. 0) init (Arr2 X0) y0 ''least_squares'' (1 / 100) 1000
     = (None, \<lparr>coefficients = Some [3 / 2, 2], intercept = Some (3 / 2)\<rparr>) \<and>
   length [3 / 2, 2 :: real] = ncols X0 + 1 \<and>
   predict \<lparr>coefficients = Some [3 / 2, 2], intercept = Some (3 / 2)\<rparr> (Arr2 X0)
     = Inl (ValueError shapes_not_aligned)"
proof -
  have len: "length y0 = nrows X0"
    by (simp add: y0_def X0_def nrows_def)
  have val: "fit (\<lambda>A. Q0) (\<lambda>i. 0) init (Arr2 X0) y0 ''least_squares'' (1 / 100) 1000
     = (None, \<lparr>coefficients = Some [3 / 2, 2], intercept = Some (3 / 2)\<rparr>)"
    by (simp add: fit_least_squares_unfold normal_equation_def gram_X0)
      (simp add: X0_def y0_def c_ones_def insert_ones_def matmul_def matvec_def T_def nrows_def
        dot_def Q0_def store_beta_def init_def)
  from fit_least_squares_then_predict_raises [OF pinv_ok_Q0 len, of "\<lambda>i. 0" init "1 / 100" 1000]
  obtain b w where
    f: "fit (\<lambda>A. Q0) (\<lambda>i. 0) init (Arr2 X0) y0 ''least_squares'' (1 / 100) 1000
       = (None, init\<lparr>intercept := Some b, coefficients := Some w\<rparr>)" and
    l: "length w = ncols X0 + 1" and
    p: "\<forall>X'. ncols X' = ncols X0 \<longrightarrow>
        predict (init\<lparr>intercept := Some b, coefficients := Some w\<rparr>) (Arr2 X')
          = Inl (ValueError shapes_not_aligned)"
    by blast
  from f val have eq: "init\<lparr>intercept := Some b, coefficients := Some w\<rparr>
      = \<lparr>coefficients = Some [3 / 2, 2], intercept = Some (3 / 2)\<rparr>"
    by simp
  from p have "predict (init\<lparr>intercept := Some b, coefficients := Some w\<rparr>) (Arr2 X0)
      = Inl (ValueError shapes_not_aligned)"
    by simp
  with eq have pr: "predict \<lparr>coefficients = Some [3 / 2, 2], intercept = Some (3 / 2)\<rparr> (Arr2 X0)
      = Inl (ValueError shapes_not_aligned)"
    by simp
  have "length [3 / 2, 2 :: real] = ncols X0 + 1"
    by (simp add: X0_def)
  with pr val len pinv_ok_Q0 show ?thesis
    by simp
qed

text \<open>
  C4, as the code has it. In an epoch of fit with "gradient_descent" on \<open>m\<close> rows, with
  current intercept \<open>b\<close> and coefficients \<open>w\<close>, the intercept becomes
  \<open>b - learning_rate * ((2/m) * sum(residual))\<close>, and every coefficient is lowered by the
  same scalar \<open>(2 * learning_rate / m) * s\<close>, where \<open>s\<close> is the sum over the rows of
  \<open>residual * (1 + the sum of the row's features)\<close>, which is
  \<^verbatim>\<open>np.sum(np.dot(X.T, error))\<close> for the matrix with the bias column; it is not
  \<open>sum(residual)\<close> and not a per-feature derivative.
\<close>

theorem gd_epoch_coefficient_step:
  assumes "wf_matrix X" and "coefficients m = Some w" and "intercept m = Some b"
    and "length w = ncols X" and "length y = nrows X" and "y \<noteq> []"
  shows "gd_epoch (insert_ones X) y lr m
           = (None, m\<lparr>intercept := Some (b - lr * (2 / real (length y) * sum_list (residual X w b y))),
                      coefficients := Some (map (\<lambda>v. v - 2 * lr / real (length y)
                          * (\<Sum>(r, e)\<leftarrow>zip (rows X) (residual X w b y). (1 + sum_list r) * e)) w)\<rparr>)"
  using assms by (rule gd_epoch_insert_ones)

theorem gd_epoch_coefficient_step_witness:
  "wf_matrix (Matrix 1 [[1 :: real]]) \<and> length [0 :: real] = ncols (Matrix 1 [[1 :: real]]) \<and>
   length [1 :: real] = nrows (Matrix 1 [[1 :: real]]) \<and> [1 :: real] \<noteq> [] \<and>
   gd_epoch (insert_ones (Matrix 1 [[1]])) [1] (1 / 100) \<lparr>coefficients = Some [0], intercept = Some 0\<rparr>
     = (None, \<lparr>coefficients = Some [1 / 25], intercept = Some (1 / 50)\<rparr>)"
  using gd_epoch_coefficient_step [of "Matrix 1 [[1]]" "\<lparr>coefficients = Some [0], intercept = Some 0\<rparr>"
      "[0]" 0 "[1]" "1 / 100"]
  by (simp add: wf_matrix_def nrows_def residual_def dot_def)

text \<open>
  C4 as stated fails: for the single row \<open>x = 1\<close>, \<open>y = 1\<close>, coefficient 0, intercept 0 and
  learning rate \<open>1/100\<close> the residual is \<open>-1\<close>, the stated step is \<open>-1/50\<close>, and the
  code's step is \<open>-1/25\<close>.
\<close>

theorem gd_epoch_claimed_step_counterexample:
  "coefficients (snd (gd_epoch (insert_ones (Matrix 1 [[1]])) [1] (1 / 100)
       \<lparr>coefficients = Some [0], intercept = Some 0\<rparr>))
     \<noteq> Some [0 - 2 * (1 / 100) / real (length [1 :: real])
                  * sum_list (residual (Matrix 1 [[1]]) [0] 0 [1])]"
  by (simp add: gd_epoch_def insert_ones_def cols_from_def predict_def matvec_def dot_def
      np_sub_def T_def nrows_def np_isub_def upt_rec residual_def)

text \<open>
  C5. For every model state and all inputs, fit with a method string other than
  "least_squares" and "gradient_descent" raises the ValueError for an unavailable method
  (the spec's InvalidArgument) and leaves the intercept and the coefficients as they were.
\<close>

theorem fit_unknown_method:
  assumes "method \<noteq> ''least_squares''" and "method \<noteq> ''gradient_descent''"
  shows "fit pinv rnd m X y method lr iterations
           = (Some (ValueError (method_not_available method)), m)"
  using assms by (simp add: fit_def)

theorem fit_unknown_method_witness:
  "''bogus'' \<noteq> ''least_squares'' \<and> ''bogus'' \<noteq> ''gradient_descent'' \<and>
   fit (\<lambda>A. A) (\<lambda>i. 0) \<lparr>coefficients = Some [2], intercept = Some 3\<rparr> (Arr1 [1, 2]) [5, 7]
       ''bogus'' (1 / 100) 1000
     = (Some (ValueError (method_not_available ''bogus'')),
        \<lparr>coefficients = Some [2], intercept = Some 3\<rparr>)"
  using fit_unknown_method [of "''bogus''" "\<lambda>A. A" "\<lambda>i. 0"
      "\<lparr>coefficients = Some [2], intercept = Some 3\<rparr>" "Arr1 [1, 2]" "[5, 7]" "1 / 100" 1000]
  by simp


text \<open>
  C6. For every input, predict on a model whose intercept or coefficients are None, as they
  are before any fit, raises the ValueError for an unfitted model (the spec's NotFitted).
\<close>

theorem predict_not_fitted:
  assumes "coefficients m = None \<or> intercept m = None"
  shows "predict m X = Inl (ValueError not_fitted)"
  using assms by (simp add: predict_def)

theorem predict_not_fitted_witness:
  "(coefficients init = None \<or> intercept init = None) \<and>
   predict init (Arr1 [1, 2]) = Inl (ValueError not_fitted)"
  using predict_not_fitted [of init "Arr1 [1, 2]"] by (simp add: init_def)

text \<open>
  C7, with the entries in the dtype of the array. Let the column \<open>index\<close> of a rectangular
  array hold exactly the categories "a", "b" and "c", and let it be one of the distinct
  categorical indices, all in range and each of a column that can be sorted. With
  \<^verbatim>\<open>drop_first=False\<close> one_hot_encode replaces that column by three indicator columns,
  a row having its single 1 at the rank of its category and 0 elsewhere; with
  \<^verbatim>\<open>drop_first=True\<close> it replaces it by two columns, and a row of category "a" has
  zeros only. The entries 1 and 0 are \<open>indicator dt True\<close> and \<open>indicator dt False\<close>: the
  floats 1.0 and 0.0 in an array of numeric or object dtype, the strings '1.0' and '0.0' in
  an array of string dtype. The other columns are as \<open>one_hot_encode_rows\<close> gives them.
\<close>

theorem one_hot_encode_abc:
  assumes "wf_matrix (cells X)" and "distinct indices"
    and "\<forall>i\<in>set indices. i < ncols (cells X) \<and> homogeneous (column (cells X) i)"
    and "index \<in> set indices"
    and "set (column (cells X) index) = {Str ''a'', Str ''b'', Str ''c''}"
  shows "one_hot_encode X indices False
           = Inr (Array (dtype X)
               (Matrix (\<Sum>j\<leftarrow>[0..<ncols (cells X)].
                          if j = index then 3
                          else if j \<in> set indices then width False (column (cells X) j) else 1)
                  (map (\<lambda>r. concat (map (\<lambda>j.
                          if j = index
                          then map (indicator (dtype X))
                                 (if r ! j = Str ''a'' then [True, False, False]
                                  else if r ! j = Str ''b'' then [False, True, False]
                                  else [False, False, True])
                          else if j \<in> set indices
                          then block (dtype X) False (column (cells X) j) (r ! j)
                          else [r ! j]) [0..<ncols (cells X)]))
                     (rows (cells X)))))
       \<and> one_hot_encode X indices True
           = Inr (Array (dtype X)
               (Matrix (\<Sum>j\<leftarrow>[0..<ncols (cells X)].
                          if j = index then 2
                          else if j \<in> set indices then width True (column (cells X) j) else 1)
                  (map (\<lambda>r. concat (map (\<lambda>j.
                          if j = index
                          then map (indicator (dtype X))
                                 (if r ! j = Str ''a'' then [False, False]
                                  else if r ! j = Str ''b'' then [True, False]
                                  else [False, True])
                          else if j \<in> set indices
                          then block (dtype X) True (column (cells X) j) (r ! j)
                          else [r ! j]) [0..<ncols (cells X)]))
                     (rows (cells X)))))"
proof -
  let ?col = "column (cells X) index"
  have mem: "r ! index \<in> set ?col" if "r \<in> set (rows (cells X))" for r
    using that by (auto simp: column_def)
  have w: "(\<Sum>j\<leftarrow>[0..<ncols (cells X)]. if j \<in> set indices then width d (column (cells X) j) else 1)
      = (\<Sum>j\<leftarrow>[0..<ncols (cells X)]. if j = index then width d ?col
                                    else if j \<in> set indices then width d (column (cells X) j) else 1)"
    for d
    using assms(4) by (intro arg_cong[where f = sum_list] map_cong) auto
  have b: "concat (map (\<lambda>j. if j \<in> set indices then block (dtype X) d (column (cells X) j) (r ! j)
                             else [r ! j]) [0..<ncols (cells X)])
      = concat (map (\<lambda>j. if j = index then block (dtype X) d ?col (r ! index)
                          else if j \<in> set indices then block (dtype X) d (column (cells X) j) (r ! j)
                          else [r ! j]) [0..<ncols (cells X)])"
    for d r
    using assms(4) by (intro arg_cong[where f = concat] map_cong) auto
  have rowsF: "map (\<lambda>r. concat (map (\<lambda>j. if j \<in> set indices
                                         then block (dtype X) False (column (cells X) j) (r ! j)
                                         else [r ! j]) [0..<ncols (cells X)])) (rows (cells X))
      = map (\<lambda>r. concat (map (\<lambda>j.
                          if j = index
                          then map (indicator (dtype X))
                                 (if r ! j = Str ''a'' then [True, False, False]
                                  else if r ! j = Str ''b'' then [False, True, False]
                                  else [False, False, True])
                          else if j \<in> set indices
                          then block (dtype X) False (column (cells X) j) (r ! j)
                          else [r ! j]) [0..<ncols (cells X)])) (rows (cells X))"
  proof (rule map_cong[OF refl])
    fix r assume r: "r \<in> set (rows (cells X))"
    show "concat (map (\<lambda>j. if j \<in> set indices
                            then block (dtype X) False (column (cells X) j) (r ! j)
                            else [r ! j]) [0..<ncols (cells X)])
        = concat (map (\<lambda>j.
                          if j = index
                          then map (indicator (dtype X))
                                 (if r ! j = Str ''a'' then [True, False, False]
                                  else if r ! j = Str ''b'' then [False, True, False]
                                  else [False, False, True])
                          else if j \<in> set indices
                          then block (dtype X) False (column (cells X) j) (r ! j)
                          else [r ! j]) [0..<ncols (cells X)])"
      unfolding b block_abc(1)[OF assms(5) mem[OF r]]
      by (intro arg_cong[where f = concat] map_cong) auto
  qed
  have rowsT: "map (\<lambda>r. concat (map (\<lambda>j. if j \<in> set indices
                                         then block (dtype X) True (column (cells X) j) (r ! j)
                                         else [r ! j]) [0..<ncols (cells X)])) (rows (cells X))
      = map (\<lambda>r. concat (map (\<lambda>j.
                          if j = index
                          then map (indicator (dtype X))
                                 (if r ! j = Str ''a'' then [False, False]
                                  else if r ! j = Str ''b'' then [True, False]
                                  else [False, True])
                          else if j \<in> set indices
                          then block (dtype X) True (column (cells X) j) (r ! j)
                          else [r ! j]) [0..<ncols (cells X)])) (rows (cells X))"
  proof (rule map_cong[OF refl])
    fix r assume r: "r \<in> set (rows (cells X))"
    show "concat (map (\<lambda>j. if j \<in> set indices
                            then block (dtype X) True (column (cells X) j) (r ! j)
                            else [r ! j]) [0..<ncols (cells X)])
        = concat (map (\<lambda>j.
                          if j = index
                          then map (indicator (dtype X))
                                 (if r ! j = Str ''a'' then [False, False]
                                  else if r ! j = Str ''b'' then [True, False]
                                  else [False, True])
                          else if j \<in> set indices
                          then block (dtype X) True (column (cells X) j) (r ! j)
                          else [r ! j]) [0..<ncols (cells X)])"
      unfolding b block_abc(2)[OF assms(5) mem[OF r]]
      by (intro arg_cong[where f = concat] map_cong) auto
  qed
  show ?thesis
    unfolding one_hot_encode_rows[OF assms(1,2,3)] w width_abc[OF assms(5)] rowsF rowsT
    by simp
qed

theorem one_hot_encode_abc_witness:
  "wf_matrix (cells X_str) \<and> distinct [0, 1 :: nat] \<and>
   set (column (cells X_str) 0) = {Str ''a'', Str ''b'', Str ''c''} \<and>
   one_hot_encode X_str [0, 1] False
     = Inr (Array Unicode (Matrix 4
         [[Str ''0.0'', Str ''1.0'', Str ''0.0'', Str ''1.0''],
          [Str ''1.0'', Str ''0.0'', Str ''0.0'', Str ''1.0''],
          [Str ''0.0'', Str ''0.0'', Str ''1.0'', Str ''1.0''],
          [Str ''0.0'', Str ''1.0'', Str ''0.0'', Str ''1.0'']])) \<and>
   one_hot_encode X_str [0, 1] True
     = Inr (Array Unicode (Matrix 2
         [[Str ''1.0'', Str ''0.0''], [Str ''0.0'', Str ''0.0''],
          [Str ''0.0'', Str ''1.0''], [Str ''1.0'', Str ''0.0'']]))"
proof -
  have w: "wf_matrix (cells X_str)" and d: "distinct [0, 1 :: nat]"
    by (simp_all add: X_str_def wf_matrix_def)
  have h: "\<forall>i\<in>set [0, 1]. i < ncols (cells X_str) \<and> homogeneous (column (cells X_str) i)"
    by (simp add: X_str_def column_def homogeneous_def)
  have s: "set (column (cells X_str) 0) = {Str ''a'', Str ''b'', Str ''c''}"
    by (auto simp: X_str_def column_def)
  show ?thesis
    using one_hot_encode_abc [OF w d h _ s] w d s
    by (simp add: X_str_def encoder_defs)
qed

text \<open>
  C7 as stated fails on an array of string dtype: the indicator columns of the result hold
  the strings '1.0' and '0.0', and no entry of the result is the number 1.
\<close>

theorem one_hot_encode_string_dtype_counterexample:
  "one_hot_encode X_str [0] False
     = Inr (Array Unicode (Matrix 4
         [[Str ''0.0'', Str ''1.0'', Str ''0.0'', Str ''x''],
          [Str ''1.0'', Str ''0.0'', Str ''0.0'', Str ''x''],
          [Str ''0.0'', Str ''0.0'', Str ''1.0'', Str ''x''],
          [Str ''0.0'', Str ''1.0'', Str ''0.0'', Str ''x'']])) \<and>
   Num 1 \<notin> set (concat (rows (cells (projr (one_hot_encode X_str [0] False)))))"
proof -
  have "one_hot_encode X_str [0] False
     = Inr (Array Unicode (Matrix 4
         [[Str ''0.0'', Str ''1.0'', Str ''0.0'', Str ''x''],
          [Str ''1.0'', Str ''0.0'', Str ''0.0'', Str ''x''],
          [Str ''0.0'', Str ''0.0'', Str ''1.0'', Str ''x''],
          [Str ''0.0'', Str ''1.0'', Str ''0.0'', Str ''x'']]))"
    by (simp add: X_str_def one_hot_encode_def encode_column_def concatenate3_def hconcat_def
        cols_before_def cols_from_def np_delete_def encoder_defs)
  then show ?thesis
    by simp
qed

text \<open>
  C8. Let the column \<open>index\<close> of a rectangular array hold one distinct value, and let it be
  one of the distinct categorical indices, all in range and each of a column that can be
  sorted. Then one_hot_encode with \<^verbatim>\<open>drop_first=True\<close> raises nothing, and in its result
  that feature has no column at all; the other columns are as \<open>one_hot_encode_rows\<close> gives
  them.
\<close>

theorem one_hot_encode_single_level:
  assumes "wf_matrix (cells X)" and "distinct indices"
    and "\<forall>i\<in>set indices. i < ncols (cells X) \<and> homogeneous (column (cells X) i)"
    and "index \<in> set indices"
    and "set (column (cells X) index) = {v}"
  shows "one_hot_encode X indices True
           = Inr (Array (dtype X)
               (Matrix (\<Sum>j\<leftarrow>[0..<ncols (cells X)].
                          if j = index then 0
                          else if j \<in> set indices then width True (column (cells X) j) else 1)
                  (map (\<lambda>r. concat (map (\<lambda>j.
                          if j = index then []
                          else if j \<in> set indices
                          then block (dtype X) True (column (cells X) j) (r ! j)
                          else [r ! j]) [0..<ncols (cells X)]))
                     (rows (cells X)))))"
proof -
  let ?col = "column (cells X) index"
  have w: "(\<Sum>j\<leftarrow>[0..<ncols (cells X)]. if j \<in> set indices then width True (column (cells X) j) else 1)
      = (\<Sum>j\<leftarrow>[0..<ncols (cells X)]. if j = index then 0
                                    else if j \<in> set indices then width True (column (cells X) j) else 1)"
    using assms(4) block_single(2)[OF assms(5)]
    by (intro arg_cong[where f = sum_list] map_cong) auto
  have b: "concat (map (\<lambda>j. if j \<in> set indices then block (dtype X) True (column (cells X) j) (r ! j)
                             else [r ! j]) [0..<ncols (cells X)])
      = concat (map (\<lambda>j. if j = index then []
                          else if j \<in> set indices then block (dtype X) True (column (cells X) j) (r ! j)
                          else [r ! j]) [0..<ncols (cells X)])"
    for r
    using assms(4) block_single(1)[OF assms(5)]
    by (intro arg_cong[where f = concat] map_cong) auto
  show ?thesis
    unfolding one_hot_encode_rows[OF assms(1,2,3)] w b by simp
qed

theorem one_hot_encode_single_level_witness:
  "wf_matrix (cells X_obj) \<and> distinct [0, 1 :: nat] \<and>
   set (column (cells X_obj) 1) = {Str ''x''} \<and>
   one_hot_encode X_obj [0, 1] True
     = Inr (Array Object (Matrix 3
         [[Num 1, Num 0, Num 7], [Num 0, Num 0, Num 8],
          [Num 0, Num 1, Num 9], [Num 1, Num 0, Num 10]]))"
proof -
  have w: "wf_matrix (cells X_obj)" and d: "distinct [0, 1 :: nat]"
    by (simp_all add: X_obj_def wf_matrix_def)
  have h: "\<forall>i\<in>set [0, 1]. i < ncols (cells X_obj) \<and> homogeneous (column (cells X_obj) i)"
    by (simp add: X_obj_def column_def homogeneous_def)
  have s: "set (column (cells X_obj) 1) = {Str ''x''}"
    by (auto simp: X_obj_def column_def)
  show ?thesis
    using one_hot_encode_single_level [OF w d h _ s] w d s
    by (simp add: X_obj_def encoder_defs)
qed

text \<open>
  C9. With an empty list of categorical indices, one_hot_encode returns a matrix equal to
  its argument; the returned array is a new one (its address differs from the argument's),
  and the argument, like every array that existed before the call, is unchanged.
\<close>

theorem one_hot_encode_no_indices:
  assumes "x < length h"
  shows "one_hot_encode (h ! x) [] drop_first = Inr (h ! x) \<and>
         (\<exists>h' r. one_hot_encode_st h x [] drop_first = (h', Inr r) \<and>
                 r \<noteq> x \<and> r < length h' \<and> h' ! r = h ! x \<and>
                 take (length h) h' = h \<and> h' ! x = h ! x)"
  using assms by (simp add: one_hot_encode_def one_hot_encode_st_def alloc_def nth_append)

theorem one_hot_encode_no_indices_witness:
  "0 < length [X_str] \<and> one_hot_encode ([X_str] ! 0) [] True = Inr X_str \<and>
   one_hot_encode_st [X_str] 0 [] True = ([X_str, X_str], Inr 1)"
  using one_hot_encode_no_indices [of 0 "[X_str]" True]
  by (simp add: one_hot_encode_st_def alloc_def)




end
